theory Spec2Isabelle
  imports Complex_Main
begin

section \<open>Python values used by the three modules\<close>

text \<open>
  Strings are \<^typ>\<open>string\<close>, a character being a code point below 256.  The characters
  that Python's \<^verbatim>\<open>str.strip()\<close> removes (\<^verbatim>\<open>str.isspace\<close>) are, among these, the twelve
  below: tab to carriage return, the four separators \<^verbatim>\<open>0x1C\<close> to \<^verbatim>\<open>0x1F\<close>, the space, the
  next-line character \<^verbatim>\<open>0x85\<close> and the no-break space \<^verbatim>\<open>0xA0\<close>.  Numbers that the source
  holds as floats are \<^typ>\<open>real\<close>: arithmetic is exact, and the two places where the source
  rounds (\<^verbatim>\<open>round(x, 2)\<close> and the format \<^verbatim>\<open>.1f\<close>) round to the nearest decimal with ties
  to even, which is what Python does on the exact value of a float.
\<close>

definition isspace :: "char \<Rightarrow> bool" where
  "isspace c = (c \<in> set [CHR 0x09, CHR 0x0A, CHR 0x0B, CHR 0x0C, CHR 0x0D,
                           CHR 0x1C, CHR 0x1D, CHR 0x1E, CHR 0x1F, CHR 0x20,
                           CHR 0x85, CHR 0xA0])"

definition strip :: "string \<Rightarrow> string" where
  "strip s = rev (dropWhile isspace (rev (dropWhile isspace s)))"

text \<open>\<^verbatim>\<open>s.split(sep)\<close> for a one-character separator: never empty, \<^verbatim>\<open>"".split("|") == [""]\<close>.\<close>

fun str_split :: "char \<Rightarrow> string \<Rightarrow> string list" where
  "str_split sep [] = [[]]"
| "str_split sep (c # cs) =
     (if c = sep then [] # str_split sep cs
      else (case str_split sep cs of [] \<Rightarrow> [[c]] | w # ws \<Rightarrow> (c # w) # ws))"

text \<open>\<^verbatim>\<open>sep.join(xs)\<close>.\<close>

fun str_join :: "string \<Rightarrow> string list \<Rightarrow> string" where
  "str_join sep [] = []"
| "str_join sep [x] = x"
| "str_join sep (x # y # ys) = x @ sep @ str_join sep (y # ys)"

text \<open>
  Exceptions, as values.  \<open>HTTPException\<close> carries the status code and the detail,
  \<open>ModelError\<close> is whatever the loaded model raises, and \<open>NaNResult\<close> marks a result the
  source computes as NaN.
\<close>

datatype error =
    RuntimeError string
  | ValueError string
  | AssertionError
  | HTTPException nat string
  | ValidationError
  | ModelError
  | NaNResult

section \<open>backend/transformers.py: GenresBinarizer\<close>

text \<open>A cell of the genres column: a string, or missing (\<^verbatim>\<open>None\<close>/\<^verbatim>\<open>NaN\<close>).\<close>

type_synonym cell = "string option"

text \<open>
  The three shapes \<^verbatim>\<open>_to_1d\<close> accepts.  A data frame is the list of its columns, so
  \<^verbatim>\<open>X.shape[1]\<close> is the length of that list; an array is given already flattened.
\<close>

datatype col_input = DataFrame "cell list list" | Series "cell list" | NdArray "cell list"

text \<open>The attribute \<^verbatim>\<open>classes_\<close> is the field \<open>classes\<close>.\<close>

record genres_binarizer =
  vocab :: "string list option"
  top_k :: int
  classes :: "string list option"

definition init_binarizer :: "string list option \<Rightarrow> int \<Rightarrow> genres_binarizer" where
  "init_binarizer v k = \<lparr>vocab = v, top_k = k, classes = None\<rparr>"

definition to_1d :: "col_input \<Rightarrow> error + cell list" where
  "to_1d X =
     (case X of
        DataFrame cols \<Rightarrow>
          (case cols of
             [c] \<Rightarrow> Inr c
           | _ \<Rightarrow> Inl (ValueError ''Expected single-column DataFrame''))
      | Series v \<Rightarrow> Inr v
      | NdArray v \<Rightarrow> Inr v)"

definition fillna :: "cell \<Rightarrow> string" where
  "fillna c = (case c of None \<Rightarrow> [] | Some s \<Rightarrow> s)"

text \<open>The distinct values of a list in order of first appearance (pandas \<^verbatim>\<open>unique\<close>).\<close>

definition unique_first :: "'a list \<Rightarrow> 'a list" where
  "unique_first xs = rev (remdups (rev xs))"

text \<open>
  \<^verbatim>\<open>Series.value_counts()\<close>: the distinct values with their counts, most frequent first.
  Values of equal count are kept here in order of first appearance.
\<close>

definition value_counts :: "'a list \<Rightarrow> ('a \<times> nat) list" where
  "value_counts xs =
     sort_key (\<lambda>p. - int (snd p)) (map (\<lambda>t. (t, count_list xs t)) (unique_first xs))"

text \<open>\<^verbatim>\<open>head(n)\<close> is \<^verbatim>\<open>iloc[:n]\<close>: a negative \<open>n\<close> drops the last \<open>-n\<close> entries.\<close>

definition py_head :: "int \<Rightarrow> 'a list \<Rightarrow> 'a list" where
  "py_head n xs = (if 0 \<le> n then take (nat n) xs else take (length xs - nat (- n)) xs)"

definition fit :: "genres_binarizer \<Rightarrow> col_input \<Rightarrow> error + genres_binarizer" where
  "fit g X =
     (case to_1d X of
        Inl e \<Rightarrow> Inl e
      | Inr vals \<Rightarrow>
          (let s = map fillna vals;
               exploded = map strip (concat (map (str_split CHR ''|'') s));
               exploded = filter (\<lambda>t. t \<noteq> []) exploded;
               counts = value_counts exploded
           in case vocab g of
                None \<Rightarrow> Inr (g\<lparr>classes := Some (map fst (py_head (top_k g) counts))\<rparr>)
              | Some v \<Rightarrow> Inr (g\<lparr>classes := Some v\<rparr>)))"

text \<open>The tags of one row: \<^verbatim>\<open>[x.strip() for x in xs if x and x.strip()]\<close> over the split.\<close>

definition row_tags :: "string \<Rightarrow> string list" where
  "row_tags s = map strip (filter (\<lambda>x. x \<noteq> [] \<and> strip x \<noteq> []) (str_split CHR ''|'' s))"

text \<open>\<^verbatim>\<open>{g: i for i, g in enumerate(self.classes_)}\<close>: a later position overwrites an earlier one.\<close>

definition idx_map :: "string list \<Rightarrow> (string \<rightharpoonup> nat)" where
  "idx_map cs = fold (\<lambda>(i, g) m. m(g \<mapsto> i)) (enumerate 0 cs) Map.empty"

text \<open>The inner loop over one row's tags, on a row of zeros of the vocabulary's length.\<close>

definition encode_row :: "string list \<Rightarrow> string list \<Rightarrow> real list" where
  "encode_row cs glist =
     fold (\<lambda>g out. case idx_map cs g of None \<Rightarrow> out | Some i \<Rightarrow> out[i := 1])
          glist (replicate (length cs) 0)"

definition transform :: "genres_binarizer \<Rightarrow> col_input \<Rightarrow> error + real list list" where
  "transform g X =
     (case classes g of
        None \<Rightarrow> Inl (RuntimeError ''GenresBinarizer is not fitted.'')
      | Some cs \<Rightarrow>
          (case to_1d X of
             Inl e \<Rightarrow> Inl e
           | Inr vals \<Rightarrow> Inr (map (\<lambda>c. encode_row cs (row_tags (fillna c))) vals)))"

text \<open>
  A call of \<^verbatim>\<open>transform\<close> as a step on the object: the body assigns to no attribute of
  \<^verbatim>\<open>self\<close> (\<^verbatim>\<open>idx_map\<close> and \<^verbatim>\<open>out\<close> are fresh locals), so the object after the call is
  the object before it.
\<close>

definition transform_call ::
  "genres_binarizer \<Rightarrow> col_input \<Rightarrow> genres_binarizer \<times> (error + real list list)" where
  "transform_call g X = (g, transform g X)"

section \<open>backend/server_reg.py: the prediction endpoint\<close>

record predict_request =
  duration :: int
  budget :: int
  title_year :: int
  genres :: "string list"
  content_rating :: string

text \<open>The dictionary \<^verbatim>\<open>row\<close>, from which the one-row data frame \<^verbatim>\<open>X\<close> is built.\<close>

record feature_row =
  row_duration :: int
  row_budget :: int
  row_title_year :: int
  row_content_rating :: string
  row_genres :: string

record predict_response =
  predicted_score :: real
  confidence :: real
  explanation :: string

text \<open>
  The loaded pipeline is an external object.  What the endpoint uses of it: \<^verbatim>\<open>pipe.predict\<close>,
  which returns a number or raises; \<^verbatim>\<open>pipe.named_steps["model"]\<close>, which may be absent; and
  the attribute \<^verbatim>\<open>estimators_\<close> of that model (the field \<open>estimators\<close>), which it may not have.
\<close>

type_synonym predictor = "feature_row \<Rightarrow> error + real"

record regressor =
  estimators :: "predictor list option"

record pipeline =
  pipe_predict :: predictor
  named_steps_model :: "regressor option"

record server =
  pipe :: pipeline
  ALLOWED_CONTENT_RATINGS :: "string set"

text \<open>The invocations of the model made while a request is served, in order.\<close>

datatype call = PipePredict feature_row | EstimatorPredict nat feature_row

definition make_row :: "predict_request \<Rightarrow> feature_row" where
  "make_row req =
     \<lparr>row_duration = duration req,
      row_budget = budget req,
      row_title_year = title_year req,
      row_content_rating = content_rating req,
      row_genres = str_join ''|'' (map strip (filter (\<lambda>g. strip g \<noteq> []) (genres req)))\<rparr>"

text \<open>
  The first \<^verbatim>\<open>try\<close>: \<^verbatim>\<open>pipe.predict\<close>, called a second time on the same row if the first
  call raises; an exception of the second call is not caught.
\<close>

definition predict_score :: "pipeline \<Rightarrow> feature_row \<Rightarrow> (error + real) \<times> call list" where
  "predict_score p X =
     (case pipe_predict p X of
        Inr s \<Rightarrow> (Inr s, [PipePredict X])
      | Inl _ \<Rightarrow>
          (case pipe_predict p X of
             Inr s \<Rightarrow> (Inr s, [PipePredict X, PipePredict X])
           | Inl e \<Rightarrow> (Inl e, [PipePredict X, PipePredict X])))"

text \<open>
  \<^verbatim>\<open>[est.predict(X)[0] for est in model.estimators_]\<close>, members numbered from \<open>k\<close>: the
  predictions, or \<open>None\<close> as soon as one member raises, with the calls made up to there.
\<close>

fun member_predictions ::
  "nat \<Rightarrow> predictor list \<Rightarrow> feature_row \<Rightarrow> real list option \<times> call list" where
  "member_predictions k [] X = (Some [], [])"
| "member_predictions k (est # ests) X =
     (case est X of
        Inl _ \<Rightarrow> (None, [EstimatorPredict k X])
      | Inr v \<Rightarrow>
          (case member_predictions (Suc k) ests X of
             (r, cs) \<Rightarrow> (map_option ((#) v) r, EstimatorPredict k X # cs)))"

text \<open>\<^verbatim>\<open>np.std\<close> (population standard deviation) of a non-empty array.\<close>

definition np_std :: "real list \<Rightarrow> real" where
  "np_std xs =
     (let n = real (length xs); m = sum_list xs / n
      in sqrt (sum_list (map (\<lambda>x. (x - m)\<^sup>2) xs) / n))"

definition round_half_even :: "real \<Rightarrow> int" where
  "round_half_even y =
     (let f = \<lfloor>y\<rfloor>; d = y - of_int f
      in if d < 1 / 2 then f else if 1 / 2 < d then f + 1 else if even f then f else f + 1)"

text \<open>\<^verbatim>\<open>round(x, 2)\<close>.\<close>

definition py_round2 :: "real \<Rightarrow> real" where
  "py_round2 x = of_int (round_half_even (x * 100)) / 100"

text \<open>
  The second \<^verbatim>\<open>try\<close>, whose every exception is swallowed and leaves the initial 0.5.
  For an empty \<^verbatim>\<open>estimators_\<close> \<^verbatim>\<open>np.std\<close> is NaN, \<^verbatim>\<open>min(1.0, nan)\<close> is its first
  argument 1.0, and the confidence is 1.0.
\<close>

definition predict_confidence :: "pipeline \<Rightarrow> feature_row \<Rightarrow> real \<times> call list" where
  "predict_confidence p X =
     (case named_steps_model p of
        None \<Rightarrow> (1 / 2, [])
      | Some model \<Rightarrow>
          (case estimators model of
             None \<Rightarrow> (1 / 2, [])
           | Some ests \<Rightarrow>
               (case member_predictions 0 ests X of
                  (None, cs) \<Rightarrow> (1 / 2, cs)
                | (Some indiv, cs) \<Rightarrow>
                    (if indiv = [] then (1, cs)
                     else (max 0 (min 1 (1 - np_std indiv / (5 / 2))), cs)))))"

text \<open>The response model validates \<^verbatim>\<open>confloat(ge=0.0, le=10.0)\<close> and \<^verbatim>\<open>confloat(ge=0.0, le=1.0)\<close>.\<close>

definition PredictResponse :: "real \<Rightarrow> real \<Rightarrow> string \<Rightarrow> error + predict_response" where
  "PredictResponse s c e =
     (if 0 \<le> s \<and> s \<le> 10 \<and> 0 \<le> c \<and> c \<le> 1
      then Inr \<lparr>predicted_score = s, confidence = c, explanation = e\<rparr>
      else Inl ValidationError)"

definition predict :: "server \<Rightarrow> predict_request \<Rightarrow> (error + predict_response) \<times> call list" where
  "predict srv req =
     (if content_rating req \<notin> ALLOWED_CONTENT_RATINGS srv
      then (Inl (HTTPException 400
                  (''content_rating '' @ [CHR 0x27] @ content_rating req @ [CHR 0x27]
                     @ '' not allowed'')), [])
      else
        (let X = make_row req in
         case predict_score (pipe srv) X of
           (Inl e, cs) \<Rightarrow> (Inl e, cs)
         | (Inr score, cs) \<Rightarrow>
             (let score_clamped = max 0 (min 10 score);
                  (conf, cs') = predict_confidence (pipe srv) X
              in (PredictResponse (py_round2 score_clamped) (py_round2 conf)
                    ''Features used: duration, budget, title_year, content_rating, genres (multi-hot).'',
                  cs @ cs'))))"

section \<open>backend/train-model-reg.py: the label binning\<close>

subsection \<open>The library functions it calls\<close>

text \<open>
  \<^verbatim>\<open>ndarray.searchsorted\<close> on a sorted array: the insertion index, left of or right of
  equal entries.
\<close>

definition searchsorted_left :: "real list \<Rightarrow> real \<Rightarrow> nat" where
  "searchsorted_left bins x = length (takeWhile (\<lambda>b. b < x) bins)"

definition searchsorted_right :: "real list \<Rightarrow> real \<Rightarrow> nat" where
  "searchsorted_right bins x = length (takeWhile (\<lambda>b. b \<le> x) bins)"

text \<open>
  numpy's check of the bins: 1 for non-decreasing bins (also empty or constant ones),
  -1 for non-increasing ones, 0 otherwise.
\<close>

definition monotonicity :: "real list \<Rightarrow> int" where
  "monotonicity bins = (if sorted bins then 1 else if sorted (rev bins) then - 1 else 0)"

text \<open>\<^verbatim>\<open>np.digitize(x, bins, right=False)\<close>.\<close>

definition digitize :: "real list \<Rightarrow> real list \<Rightarrow> error + nat list" where
  "digitize x bins =
     (let mono = monotonicity bins in
      if mono = 0 then Inl (ValueError ''bins must be monotonically increasing or decreasing'')
      else if mono = - 1
        then Inr (map (\<lambda>v. length bins - searchsorted_right (rev bins) v) x)
        else Inr (map (searchsorted_right bins) x))"

text \<open>
  \<^verbatim>\<open>Series.quantile\<close> with linear interpolation, on the sorted values: the virtual index
  \<open>q (n - 1)\<close>, its two neighbours, and the interpolation between them.
\<close>

definition quantile_linear :: "real list \<Rightarrow> real \<Rightarrow> real" where
  "quantile_linear ys q =
     (let n = length ys;
          h = real (n - 1) * q;
          lo = nat \<lfloor>h\<rfloor>;
          hi = min (lo + 1) (n - 1)
      in ys ! lo + (h - real lo) * (ys ! hi - ys ! lo))"

text \<open>\<^verbatim>\<open>np.linspace(0, 1, q + 1)\<close>.\<close>

definition linspace01 :: "nat \<Rightarrow> real list" where
  "linspace01 q = map (\<lambda>k. real k / real q) [0..<q + 1]"

text \<open>
  The code of one value under \<^verbatim>\<open>pd.qcut\<close>: intervals are closed on the right, the first
  one also on the left (\<^verbatim>\<open>include_lowest\<close>), and a value in no interval has code -1.
\<close>

definition qcut_code :: "real list \<Rightarrow> real \<Rightarrow> int" where
  "qcut_code bins x =
     (let ids = searchsorted_left bins x;
          ids = (if x = bins ! 0 then 1 else ids)
      in if ids = length bins \<or> ids = 0 then - 1 else int ids - 1)"

text \<open>
  \<^verbatim>\<open>pd.qcut(s, q, retbins=True, duplicates="drop")\<close>: the codes and the bin edges.  The
  quantiles of an empty series are NaN, which no real number stands for: the model stops
  there with \<open>NaNResult\<close>.
\<close>

definition qcut :: "real list \<Rightarrow> nat \<Rightarrow> error + (int list \<times> real list)" where
  "qcut y q =
     (if y = [] then Inl NaNResult
      else
        (let bins = map (quantile_linear (sort y)) (linspace01 q);
             unique_bins = unique_first bins;
             bins = (if length unique_bins < length bins \<and> length bins \<noteq> 2
                     then unique_bins else bins)
         in Inr (map (qcut_code bins) y, bins)))"

text \<open>The format \<^verbatim>\<open>.1f\<close>: sign, integer part, point, one digit.\<close>

definition digit_char :: "nat \<Rightarrow> char" where
  "digit_char d = char_of (48 + d)"

fun show_nat :: "nat \<Rightarrow> string" where
  "show_nat n = (if n < 10 then [digit_char n] else show_nat (n div 10) @ [digit_char (n mod 10)])"

definition fmt_1f :: "real \<Rightarrow> string" where
  "fmt_1f x =
     (let k = nat (round_half_even (\<bar>x\<bar> * 10))
      in (if x < 0 then ''-'' else []) @ show_nat (k div 10) @ ''.'' @ [digit_char (k mod 10)])"

subsection \<open>The binning function\<close>

text \<open>The loop that renders the labels of \<open>n\<close> intervals, the same in both modes.\<close>

definition make_labels :: "real list \<Rightarrow> nat \<Rightarrow> string list" where
  "make_labels edges n =
     map (\<lambda>i. ''['' @ fmt_1f (edges ! i) @ '', '' @ fmt_1f (edges ! (i + 1))
               @ (if int i < int n - 1 then '')'' else '']''))
         [0..<n]"

text \<open>
  Every mode other than \<^verbatim>\<open>"fixed"\<close> takes the quantile path.  \<open>n_classes\<close> is a natural
  number: a negative one fails the assertion in fixed mode and \<^verbatim>\<open>np.linspace\<close> in
  quantile mode.
\<close>

definition make_bins ::
  "real list \<Rightarrow> string \<Rightarrow> nat \<Rightarrow> real list option
     \<Rightarrow> error + (int list \<times> real list \<times> string list)" where
  "make_bins y mode n_classes fixed_edges =
     (if mode = ''fixed'' then
        (case fixed_edges of
           None \<Rightarrow> Inl AssertionError
         | Some edges \<Rightarrow>
             if edges \<noteq> [] \<and> length edges = n_classes + 1 then
               (case digitize y (butlast (tl edges)) of
                  Inl e \<Rightarrow> Inl e
                | Inr cls \<Rightarrow> Inr (map int cls, edges, make_labels edges n_classes))
             else Inl AssertionError)
      else
        (case qcut y n_classes of
           Inl e \<Rightarrow> Inl e
         | Inr (codes, edges) \<Rightarrow>
             (let real_classes = length edges - 1
              in Inr (codes, edges, make_labels edges real_classes))))"

section \<open>Properties of GenresBinarizer\<close>

subsection \<open>Splitting, the index map and the row loop\<close>

lemma str_split_nonempty: "str_split sep s \<noteq> []"
  by (induction s) (auto split: list.splits)

lemma str_split_append:
  "str_split sep (xs @ sep # ys) = str_split sep xs @ str_split sep ys"
  using str_split_nonempty
  by (induction xs) (auto split: list.splits)

lemma idx_map_snoc: "idx_map (cs @ [c]) = (idx_map cs)(c \<mapsto> length cs)"
  by (simp add: idx_map_def enumerate_append_eq)

lemma idx_map_Nil: "idx_map [] = Map.empty"
  by (simp add: idx_map_def)

lemma idx_map_Some_iff:
  "idx_map cs g = Some i \<longleftrightarrow> i < length cs \<and> cs ! i = g \<and> g \<notin> set (drop (Suc i) cs)"
proof (induction cs rule: rev_induct)
  case Nil
  then show ?case by (simp add: idx_map_Nil)
next
  case (snoc c cs)
  show ?case
  proof (cases "g = c")
    case True
    then show ?thesis
      by (auto simp: idx_map_snoc nth_append)
  next
    case False
    then show ?thesis
      using snoc by (auto simp: idx_map_snoc nth_append)
  qed
qed

lemma idx_map_None_iff: "idx_map cs g = None \<longleftrightarrow> g \<notin> set cs"
  by (induction cs rule: rev_induct) (auto simp: idx_map_Nil idx_map_snoc)

lemma encode_fold_length:
  "length (fold (\<lambda>g out. case m g of None \<Rightarrow> out | Some i \<Rightarrow> out[i := (1::real)]) glist out) = length out"
  by (induction glist arbitrary: out) (auto split: option.splits)

lemma encode_fold_nth:
  "i < length out \<Longrightarrow>
   fold (\<lambda>g out. case m g of None \<Rightarrow> out | Some i \<Rightarrow> out[i := (1::real)]) glist out ! i =
     (if \<exists>g \<in> set glist. m g = Some i then 1 else out ! i)"
proof (induction glist arbitrary: out)
  case Nil
  then show ?case by simp
next
  case (Cons g glist)
  show ?case
  proof (cases "m g")
    case None
    then show ?thesis using Cons by auto
  next
    case (Some j)
    then show ?thesis using Cons by (auto simp: nth_list_update)
  qed
qed

lemma length_encode_row: "length (encode_row cs glist) = length cs"
  by (simp add: encode_row_def encode_fold_length)

lemma encode_row_nth:
  assumes "i < length cs"
  shows "encode_row cs glist ! i =
           (if cs ! i \<in> set glist \<and> cs ! i \<notin> set (drop (Suc i) cs) then 1 else 0)"
proof -
  have "(\<exists>g \<in> set glist. idx_map cs g = Some i) \<longleftrightarrow>
        cs ! i \<in> set glist \<and> cs ! i \<notin> set (drop (Suc i) cs)"
    using assms by (auto simp: idx_map_Some_iff)
  then show ?thesis
    using assms by (simp add: encode_row_def encode_fold_nth)
qed


lemma row_tags_append:
  "row_tags (xs @ CHR ''|'' # ys) = row_tags xs @ row_tags ys"
  by (simp add: row_tags_def str_split_append)

lemma row_tags_Nil: "row_tags [] = []"
  by (simp add: row_tags_def strip_def)

lemma set_row_tags:
  "set (row_tags s) = strip ` set (str_split CHR ''|'' s) - {[]}"
  by (auto simp: row_tags_def strip_def)

subsection \<open>The fitted vocabulary\<close>

lemma distinct_unique_first: "distinct (unique_first xs)"
  by (simp add: unique_first_def)

lemma map_fst_value_counts_distinct: "distinct (map fst (value_counts xs))"
proof -
  let ?l = "map (\<lambda>t. (t, count_list xs t)) (unique_first xs)"
  have "map fst ?l = unique_first xs"
    by (simp add: comp_def)
  then have "distinct (map fst ?l)"
    by (simp add: distinct_unique_first)
  then have "distinct ?l \<and> inj_on fst (set ?l)"
    by (simp only: distinct_map)
  then have "distinct (sort_key (\<lambda>p. - int (snd p)) ?l)
             \<and> inj_on fst (set (sort_key (\<lambda>p. - int (snd p)) ?l))"
    by simp
  then show ?thesis
    unfolding value_counts_def by (simp only: distinct_map)
qed

lemma py_head_take: "\<exists>k. py_head n xs = take k xs"
  by (auto simp: py_head_def)

lemma length_py_head: "0 \<le> n \<Longrightarrow> int (length (py_head n xs)) \<le> n"
  by (simp add: py_head_def)

lemma distinct_map_fst_py_head:
  "distinct (map fst xs) \<Longrightarrow> distinct (map fst (py_head n xs))"
proof -
  assume d: "distinct (map fst xs)"
  obtain k where "py_head n xs = take k xs"
    using py_head_take by blast
  then show ?thesis
    using d by (simp add: take_map [symmetric] del: take_map)
qed

subsection \<open>The claims about the encoder\<close>


text \<open>
  C9.  On an instance on which \<^verbatim>\<open>fit\<close> has never been called (\<^verbatim>\<open>classes_\<close> is still the
  \<^verbatim>\<open>None\<close> of the constructor), every call of \<^verbatim>\<open>transform\<close>, whatever the input, raises
  the error that names the unfitted state, and returns no matrix.
\<close>

theorem transform_unfitted_raises:
  "transform (init_binarizer v k) X = Inl (RuntimeError ''GenresBinarizer is not fitted.'')"
  by (simp add: transform_def init_binarizer_def)

theorem transform_unfitted_raises_witness:
  "transform (init_binarizer None 30) (Series [Some ''Drama''])
     = Inl (RuntimeError ''GenresBinarizer is not fitted.'')"
  by (rule transform_unfitted_raises)

text \<open>
  C1 (as amended).  For a fitted encoder with vocabulary \<open>cs\<close> and any column of rows,
  \<^verbatim>\<open>transform\<close> returns one vector per row, each of the length of the vocabulary, whatever
  the row's tags are.  The tags of a row are the non-empty trimmed pieces of its split at
  \<^verbatim>\<open>|\<close>.  Entry \<open>i\<close> is 1 exactly when token \<open>i\<close> of the vocabulary is among the row's tags
  and does not occur again later in the vocabulary, and 0 otherwise: in a vocabulary
  without repeated tokens, exactly when the token is among the tags.  Tags outside the
  vocabulary change nothing, and a missing or empty row gives the zero vector.
\<close>

theorem transform_multi_hot:
  assumes "classes g = Some cs" and "to_1d X = Inr rows"
  shows "\<exists>out. transform g X = Inr out \<and> length out = length rows \<and>
           (\<forall>r<length rows.
              length (out ! r) = length cs \<and>
              set (row_tags (fillna (rows ! r))) =
                strip ` set (str_split CHR ''|'' (fillna (rows ! r))) - {[]} \<and>
              (\<forall>i<length cs.
                 out ! r ! i =
                   (if cs ! i \<in> set (row_tags (fillna (rows ! r)))
                       \<and> cs ! i \<notin> set (drop (Suc i) cs) then 1 else 0)) \<and>
              (rows ! r = None \<or> rows ! r = Some [] \<longrightarrow> out ! r = replicate (length cs) 0))"
proof -
  let ?out = "map (\<lambda>c. encode_row cs (row_tags (fillna c))) rows"
  have t: "transform g X = Inr ?out"
    using assms by (simp add: transform_def)
  have zero: "encode_row cs [] = replicate (length cs) 0"
    by (simp add: encode_row_def)
  have "\<forall>r<length rows.
          length (?out ! r) = length cs \<and>
          set (row_tags (fillna (rows ! r))) =
            strip ` set (str_split CHR ''|'' (fillna (rows ! r))) - {[]} \<and>
          (\<forall>i<length cs.
             ?out ! r ! i =
               (if cs ! i \<in> set (row_tags (fillna (rows ! r)))
                   \<and> cs ! i \<notin> set (drop (Suc i) cs) then 1 else 0)) \<and>
          (rows ! r = None \<or> rows ! r = Some [] \<longrightarrow> ?out ! r = replicate (length cs) 0)"
    by (auto simp: length_encode_row encode_row_nth set_row_tags fillna_def row_tags_Nil zero)
  with t show ?thesis by simp
qed

theorem transform_multi_hot_witness:
  "classes \<lparr>vocab = None, top_k = 30, classes = Some [''Drama'', ''Comedy'']\<rparr>
     = Some [''Drama'', ''Comedy''] \<and>
   to_1d (Series [Some ''Comedy | Sci-Fi'', None]) = Inr [Some ''Comedy | Sci-Fi'', None] \<and>
   transform \<lparr>vocab = None, top_k = 30, classes = Some [''Drama'', ''Comedy'']\<rparr>
     (Series [Some ''Comedy | Sci-Fi'', None]) = Inr [[0, 1], [0, 0]]"
  using transform_multi_hot [of "\<lparr>vocab = None, top_k = 30, classes = Some [''Drama'', ''Comedy'']\<rparr>"
      "[''Drama'', ''Comedy'']" "Series [Some ''Comedy | Sci-Fi'', None]"
      "[Some ''Comedy | Sci-Fi'', None]"]
  by (simp add: to_1d_def transform_def encode_row_def idx_map_def row_tags_def strip_def
      isspace_def fillna_def enumerate_eq_zip)

text \<open>
  The claim as first stated fails for a vocabulary given by the caller with a repeated
  token: position 0 stays 0 although its token is among the row's tags.
\<close>

theorem transform_repeated_vocab_counterexample:
  "fit (init_binarizer (Some [''A'', ''A'']) 30) (Series [Some ''A''])
     = Inr \<lparr>vocab = Some [''A'', ''A''], top_k = 30, classes = Some [''A'', ''A'']\<rparr> \<and>
   transform \<lparr>vocab = Some [''A'', ''A''], top_k = 30, classes = Some [''A'', ''A'']\<rparr>
     (Series [Some ''A'']) = Inr [[0, 1]] \<and>
   [''A'', ''A''] ! 0 \<in> set (row_tags ''A'')"
  by (simp add: fit_def init_binarizer_def to_1d_def transform_def encode_row_def idx_map_def
      row_tags_def strip_def isspace_def fillna_def)



text \<open>
  C5 (as amended).  After a successful \<^verbatim>\<open>fit\<close>: when no vocabulary was supplied, the
  fitted vocabulary has no repeated token and, for a cap \<open>top_k \<ge> 0\<close>, at most \<open>top_k\<close>
  tokens; when a vocabulary was supplied, the fitted vocabulary is that list as given,
  neither capped nor deduplicated; and a call of \<^verbatim>\<open>transform\<close> leaves the object, hence
  the vocabulary, as it was.
\<close>

theorem fit_classes:
  assumes "fit g X = Inr g'"
  shows "(vocab g = None \<longrightarrow>
            (\<exists>cs. classes g' = Some cs \<and> distinct cs
                  \<and> (0 \<le> top_k g \<longrightarrow> int (length cs) \<le> top_k g)))
         \<and> (\<forall>v. vocab g = Some v \<longrightarrow> classes g' = Some v)
         \<and> fst (transform_call g' X') = g'"
proof -
  obtain vals where v: "to_1d X = Inr vals"
    using assms by (cases "to_1d X") (simp_all add: fit_def)
  let ?counts = "value_counts (filter (\<lambda>t. t \<noteq> [])
                   (map strip (concat (map (str_split CHR ''|'') (map fillna vals)))))"
  have "classes g' = Some (map fst (py_head (top_k g) ?counts))" if "vocab g = None"
    using assms v that by (auto simp: fit_def Let_def)
  moreover have "distinct (map fst (py_head (top_k g) ?counts))"
    by (rule distinct_map_fst_py_head) (rule map_fst_value_counts_distinct)
  moreover have "int (length (map fst (py_head (top_k g) ?counts))) \<le> top_k g" if "0 \<le> top_k g"
    using that by (simp add: length_py_head)
  moreover have "classes g' = Some w" if "vocab g = Some w" for w
    using assms v that by (auto simp: fit_def Let_def)
  ultimately show ?thesis
    by (simp add: transform_call_def)
qed

theorem fit_classes_witness:
  "fit (init_binarizer None 2) (Series [Some ''Action|Drama'', None, Some '' Drama | Comedy|'', Some ''Comedy|Drama''])
     = Inr \<lparr>vocab = None, top_k = 2, classes = Some [''Drama'', ''Comedy'']\<rparr>
   \<and> vocab (init_binarizer None 2) = None \<and> 0 \<le> top_k (init_binarizer None 2)
   \<and> distinct [''Drama'', ''Comedy''] \<and> int (length [''Drama'', ''Comedy'']) \<le> 2"
proof -
  have f: "fit (init_binarizer None 2) (Series [Some ''Action|Drama'', None, Some '' Drama | Comedy|'', Some ''Comedy|Drama''])
     = Inr \<lparr>vocab = None, top_k = 2, classes = Some [''Drama'', ''Comedy'']\<rparr>"
    by (simp add: fit_def init_binarizer_def to_1d_def fillna_def strip_def isspace_def
        value_counts_def unique_first_def py_head_def)
  show ?thesis
    using fit_classes [OF f] f by (simp add: init_binarizer_def)
qed

text \<open>
  The claim as first stated fails for a supplied vocabulary: it is kept with its
  repetition and beyond the cap.
\<close>

theorem fit_explicit_vocab_counterexample:
  "fit (init_binarizer (Some [''A'', ''A'']) 1) (Series [Some ''A''])
     = Inr \<lparr>vocab = Some [''A'', ''A''], top_k = 1, classes = Some [''A'', ''A'']\<rparr>
   \<and> \<not> distinct [''A'', ''A''] \<and> \<not> int (length [''A'', ''A'']) \<le> 1"
  by (simp add: fit_def init_binarizer_def to_1d_def)

section \<open>Properties of the prediction endpoint\<close>

subsection \<open>Trimming and the normalised genres\<close>

lemma strip_all_space: "list_all isspace w \<Longrightarrow> strip w = []"
  by (auto simp: strip_def list_all_iff dropWhile_eq_Nil_conv dest: set_dropWhileD)

lemma last_dropWhile: "dropWhile P xs \<noteq> [] \<Longrightarrow> last (dropWhile P xs) = last xs"
  by (induction xs) (auto split: if_splits)

lemma strip_fix:
  assumes "s = [] \<or> (\<not> isspace (hd s) \<and> \<not> isspace (last s))"
  shows "strip s = s"
proof (cases s)
  case Nil
  then show ?thesis by (simp add: strip_def)
next
  case (Cons a as)
  with assms have h: "\<not> isspace a" and l: "\<not> isspace (last s)" by auto
  have "dropWhile isspace s = s" using Cons h by simp
  moreover have "dropWhile isspace (rev s) = rev s"
    using Cons l by (cases "rev s") (auto simp: hd_rev[symmetric] simp del: hd_rev)
  ultimately show ?thesis by (simp add: strip_def)
qed

lemma strip_ends:
  assumes "strip s \<noteq> []"
  shows "\<not> isspace (hd (strip s)) \<and> \<not> isspace (last (strip s))"
proof -
  let ?d = "dropWhile isspace s"
  let ?e = "dropWhile isspace (rev ?d)"
  have e: "?e \<noteq> []" using assms by (simp add: strip_def)
  then have d: "?d \<noteq> []" by (auto dest: set_dropWhileD)
  have "last (strip s) = hd ?e"
    using e by (simp add: strip_def last_rev)
  moreover have "\<not> isspace (hd ?e)" using e by (rule hd_dropWhile)
  moreover have "hd (strip s) = last ?e"
    using e by (simp add: strip_def hd_rev)
  moreover have "last ?e = last (rev ?d)" using e by (rule last_dropWhile)
  moreover have "last (rev ?d) = hd ?d" using d by (simp add: last_rev)
  moreover have "\<not> isspace (hd ?d)" using d by (rule hd_dropWhile)
  ultimately show ?thesis by simp
qed

lemma strip_idem: "strip (strip s) = strip s"
  by (rule strip_fix) (use strip_ends in blast)

lemma strip_surround:
  assumes "list_all isspace l" and "list_all isspace r"
  shows "strip (l @ g @ r) = strip g"
proof (cases "list_all isspace g")
  case True
  with assms have "list_all isspace (l @ g @ r)" by simp
  with True show ?thesis by (simp only: strip_all_space)
next
  case False
  then obtain x where x: "x \<in> set g" "\<not> isspace x"
    by (auto simp: list_all_iff)
  have "dropWhile isspace (l @ g @ r) = dropWhile isspace (g @ r)"
    using assms(1) by (simp add: list_all_iff)
  also have "\<dots> = dropWhile isspace g @ r"
    using x by (rule dropWhile_append1)
  finally have "rev (dropWhile isspace (l @ g @ r)) = rev r @ rev (dropWhile isspace g)"
    by simp
  moreover have "dropWhile isspace (rev r @ ys) = dropWhile isspace ys" for ys
    by (rule dropWhile_append2) (use assms(2) in \<open>simp add: list_all_iff\<close>)
  ultimately show ?thesis
    by (simp add: strip_def)
qed

lemma predict_cong_row:
  "content_rating a = content_rating b \<Longrightarrow> make_row a = make_row b
     \<Longrightarrow> predict srv a = predict srv b"
  by (simp add: predict_def)

lemma make_row_genres_cong:
  "map strip (filter (\<lambda>g. strip g \<noteq> []) gs) = map strip (filter (\<lambda>g. strip g \<noteq> []) hs)
     \<Longrightarrow> make_row (req\<lparr>genres := gs\<rparr>) = make_row (req\<lparr>genres := hs\<rparr>)"
  by (simp add: make_row_def)

lemma clean_genres_idem:
  "map strip (filter (\<lambda>g. strip g \<noteq> []) (map strip (filter (\<lambda>g. strip g \<noteq> []) gs)))
     = map strip (filter (\<lambda>g. strip g \<noteq> []) gs)"
  by (induction gs) (simp_all add: strip_idem)

lemma pipe_not_space: "\<not> isspace CHR ''|''"
  by (simp add: isspace_def)

lemma strip_decomp:
  "\<exists>l r. g = l @ strip g @ r \<and> list_all isspace l \<and> list_all isspace r"
proof -
  let ?d = "dropWhile isspace g"
  let ?l = "takeWhile isspace g"
  let ?r = "rev (takeWhile isspace (rev ?d))"
  have "takeWhile isspace (rev ?d) @ dropWhile isspace (rev ?d) = rev ?d"
    by (rule takeWhile_dropWhile_id)
  then have "rev (takeWhile isspace (rev ?d) @ dropWhile isspace (rev ?d)) = rev (rev ?d)"
    by (rule arg_cong)
  then have "rev (dropWhile isspace (rev ?d)) @ ?r = ?d"
    by (simp only: rev_append rev_rev_ident)
  then have d: "?d = strip g @ ?r"
    by (simp only: strip_def)
  have "g = ?l @ ?d" by simp
  with d have "g = ?l @ strip g @ ?r" by simp
  moreover have "list_all isspace ?l"
    by (auto simp: list_all_iff dest: set_takeWhileD)
  moreover have "list_all isspace ?r"
    by (auto simp: list_all_iff dest: set_takeWhileD)
  ultimately show ?thesis by blast
qed

lemma split_prepend:
  "sep \<notin> set l \<Longrightarrow>
     str_split sep (l @ s) = (l @ hd (str_split sep s)) # tl (str_split sep s)"
  using str_split_nonempty [of sep s]
  by (induction l) (auto split: list.splits)

lemma split_append_nosep:
  "sep \<notin> set r \<Longrightarrow>
     str_split sep (s @ r) = butlast (str_split sep s) @ [last (str_split sep s) @ r]"
proof (induction s)
  case Nil
  then show ?case
    using split_prepend [of sep r "[]"] by simp
next
  case (Cons c s)
  then show ?case
    using str_split_nonempty [of sep s] str_split_nonempty [of sep "s @ r"]
    by (auto split: list.splits)
qed

lemma row_tags_alt:
  "row_tags s = filter (\<lambda>t. t \<noteq> []) (map strip (str_split CHR ''|'' s))"
proof -
  have "(x \<noteq> [] \<and> strip x \<noteq> []) = (strip x \<noteq> [])" for x
    by (auto simp: strip_def)
  then show ?thesis
    by (simp add: row_tags_def filter_map comp_def)
qed

lemma map_strip_split_surround:
  assumes "list_all isspace l" and "list_all isspace r"
  shows "map strip (str_split CHR ''|'' (l @ m @ r)) = map strip (str_split CHR ''|'' m)"
proof -
  have nl: "CHR ''|'' \<notin> set l" and nr: "CHR ''|'' \<notin> set r"
    using assms pipe_not_space by (auto simp: list_all_iff)
  let ?ps = "str_split CHR ''|'' m"
  have ne: "?ps \<noteq> []" by (rule str_split_nonempty)
  have a: "map strip (butlast ?ps @ [last ?ps @ r]) = map strip ?ps"
  proof -
    have "strip (last ?ps @ r) = strip (last ?ps)"
      using strip_surround [of "[]" r "last ?ps"] assms(2) by simp
    then have "map strip (butlast ?ps @ [last ?ps @ r]) = map strip (butlast ?ps @ [last ?ps])"
      by simp
    then show ?thesis using ne by simp
  qed
  let ?qs = "str_split CHR ''|'' (m @ r)"
  have neq: "?qs \<noteq> []" by (rule str_split_nonempty)
  have "strip (l @ hd ?qs) = strip (hd ?qs)"
    using strip_surround [of l "[]" "hd ?qs"] assms(1) by simp
  then have "map strip ((l @ hd ?qs) # tl ?qs) = map strip (hd ?qs # tl ?qs)"
    by simp
  then have "map strip (str_split CHR ''|'' (l @ m @ r)) = map strip ?qs"
    using neq by (simp add: split_prepend [OF nl])
  also have "\<dots> = map strip ?ps"
    using a by (simp add: split_append_nosep [OF nr])
  finally show ?thesis .
qed

lemma row_tags_strip: "row_tags (strip g) = row_tags g"
proof -
  obtain l r where "g = l @ strip g @ r" "list_all isspace l" "list_all isspace r"
    using strip_decomp by blast
  then have "map strip (str_split CHR ''|'' g) = map strip (str_split CHR ''|'' (strip g))"
    using map_strip_split_surround [of l r "strip g"] by simp
  then show ?thesis by (simp add: row_tags_alt)
qed

lemma row_tags_join: "row_tags (str_join ''|'' xs) = concat (map row_tags xs)"
  by (induction xs rule: induct_list012) (simp_all add: row_tags_Nil row_tags_append)

lemma row_tags_blank: "strip g = [] \<Longrightarrow> row_tags g = []"
  using row_tags_strip [of g] by (simp add: row_tags_Nil)

lemma row_tags_make_row:
  "row_tags (row_genres (make_row req)) = concat (map row_tags (genres req))"
proof -
  have "concat (map row_tags (map strip (filter (\<lambda>g. strip g \<noteq> []) gs)))
          = concat (map row_tags gs)" for gs
    by (induction gs) (simp_all add: row_tags_strip row_tags_blank)
  then show ?thesis
    by (simp add: make_row_def row_tags_join)
qed

lemma strip_shape:
  "\<exists>l r. g = l @ strip g @ r \<and> list_all isspace l \<and> list_all isspace r
         \<and> (strip g = [] \<or> (\<not> isspace (hd (strip g)) \<and> \<not> isspace (last (strip g))))"
  using strip_decomp [of g] strip_ends [of g] by blast

subsection \<open>Rounding, the standard deviation and the two try blocks\<close>





lemma py_round2_one: "py_round2 1 = 1"
  by (simp add: py_round2_def round_half_even_def)


lemma predict_score_eq:
  "fst (predict_score p X) = pipe_predict p X"
  by (cases "pipe_predict p X") (simp_all add: predict_score_def)




subsection \<open>The claims about the endpoint\<close>

text \<open>
  C8.  A request whose \<^verbatim>\<open>content_rating\<close> is not in the allowed set is answered with
  the client error 400 naming the rating, and no call of the pipeline or of a member of
  the model is made for it.
\<close>

theorem predict_rejects_unknown_rating:
  assumes "content_rating req \<notin> ALLOWED_CONTENT_RATINGS srv"
  shows "predict srv req =
           (Inl (HTTPException 400
                  (''content_rating '' @ [CHR 0x27] @ content_rating req @ [CHR 0x27]
                     @ '' not allowed'')), [])"
  using assms by (simp add: predict_def)

theorem predict_rejects_unknown_rating_witness:
  "''XXX-UNKNOWN'' \<notin> {''PG-13'', ''R''}
   \<and> predict \<lparr>pipe = \<lparr>pipe_predict = (\<lambda>X. Inr 7), named_steps_model = None\<rparr>,
               ALLOWED_CONTENT_RATINGS = {''PG-13'', ''R''}\<rparr>
        \<lparr>duration = 120, budget = 50000000, title_year = 2015,
         genres = [''Action'', ''Drama''], content_rating = ''XXX-UNKNOWN''\<rparr>
     = (Inl (HTTPException 400 ''content_rating 'XXX-UNKNOWN' not allowed''), [])"
  using predict_rejects_unknown_rating
    [of "\<lparr>duration = 120, budget = 50000000, title_year = 2015,
         genres = [''Action'', ''Drama''], content_rating = ''XXX-UNKNOWN''\<rparr>"
        "\<lparr>pipe = \<lparr>pipe_predict = (\<lambda>X. Inr 7), named_steps_model = None\<rparr>,
               ALLOWED_CONTENT_RATINGS = {''PG-13'', ''R''}\<rparr>"]
  by simp

text \<open>
  C10.  The row built from a request copies the three numbers and the rating, and its
  genres are the entries of the request, each trimmed, those that trim to nothing
  dropped, joined with \<^verbatim>\<open>|\<close>.  Trimming takes whitespace, and only whitespace, off both
  ends of an entry, until the entry is empty or starts and ends with another character.
  So the row does not change, and neither does the answer, when an entry of only
  whitespace is added to the genres anywhere, when whitespace is put around a genre, or
  when the genres are replaced by their cleaned list; the genres \<^verbatim>\<open>["", "  "]\<close> give the
  empty genres string and are served as \<^verbatim>\<open>[]\<close>.  The tags the encoder reads from the
  row are the tags of the request's entries, in order.
\<close>

theorem predict_genres_normalised:
  assumes "list_all isspace w" and "list_all isspace l" and "list_all isspace r"
  shows "make_row (req\<lparr>genres := pre @ [w] @ post\<rparr>) = make_row (req\<lparr>genres := pre @ post\<rparr>)
       \<and> make_row (req\<lparr>genres := pre @ [l @ g @ r] @ post\<rparr>)
           = make_row (req\<lparr>genres := pre @ [g] @ post\<rparr>)
       \<and> make_row (req\<lparr>genres := map strip (filter (\<lambda>g. strip g \<noteq> []) (genres req))\<rparr>)
           = make_row req
       \<and> predict srv (req\<lparr>genres := pre @ [w] @ post\<rparr>) = predict srv (req\<lparr>genres := pre @ post\<rparr>)
       \<and> predict srv (req\<lparr>genres := pre @ [l @ g @ r] @ post\<rparr>)
           = predict srv (req\<lparr>genres := pre @ [g] @ post\<rparr>)
       \<and> predict srv (req\<lparr>genres := map strip (filter (\<lambda>g. strip g \<noteq> []) (genres req))\<rparr>)
           = predict srv req
       \<and> predict srv (req\<lparr>genres := ['''', ''  '']\<rparr>) = predict srv (req\<lparr>genres := []\<rparr>)
       \<and> row_genres (make_row req)
           = str_join ''|'' (map strip (filter (\<lambda>g. strip g \<noteq> []) (genres req)))
       \<and> row_duration (make_row req) = duration req
       \<and> row_budget (make_row req) = budget req
       \<and> row_title_year (make_row req) = title_year req
       \<and> row_content_rating (make_row req) = content_rating req
       \<and> (\<forall>e. \<exists>a b. e = a @ strip e @ b \<and> list_all isspace a \<and> list_all isspace b
               \<and> (strip e = [] \<or> (\<not> isspace (hd (strip e)) \<and> \<not> isspace (last (strip e)))))
       \<and> row_tags (row_genres (make_row req)) = concat (map row_tags (genres req))
       \<and> row_genres (make_row (req\<lparr>genres := ['''', ''  '']\<rparr>)) = []"
proof -
  have r1: "make_row (req\<lparr>genres := pre @ [w] @ post\<rparr>) = make_row (req\<lparr>genres := pre @ post\<rparr>)"
    by (rule make_row_genres_cong) (simp add: strip_all_space assms(1))
  have r2: "make_row (req\<lparr>genres := pre @ [l @ g @ r] @ post\<rparr>)
              = make_row (req\<lparr>genres := pre @ [g] @ post\<rparr>)"
    by (rule make_row_genres_cong) (simp add: strip_surround assms(2,3))
  have r3: "make_row (req\<lparr>genres := map strip (filter (\<lambda>g. strip g \<noteq> []) (genres req))\<rparr>)
              = make_row req"
    by (simp add: make_row_def clean_genres_idem)
  have e: "list_all isspace ''''" "list_all isspace ''  ''"
    by (simp_all add: isspace_def)
  have r4: "make_row (req\<lparr>genres := ['''', ''  '']\<rparr>) = make_row (req\<lparr>genres := []\<rparr>)"
    by (rule make_row_genres_cong) (simp add: strip_all_space [OF e(1)] strip_all_space [OF e(2)])
  have p1: "predict srv (req\<lparr>genres := pre @ [w] @ post\<rparr>) = predict srv (req\<lparr>genres := pre @ post\<rparr>)"
    by (rule predict_cong_row [OF _ r1]) simp
  have p2: "predict srv (req\<lparr>genres := pre @ [l @ g @ r] @ post\<rparr>)
              = predict srv (req\<lparr>genres := pre @ [g] @ post\<rparr>)"
    by (rule predict_cong_row [OF _ r2]) simp
  have p3: "predict srv (req\<lparr>genres := map strip (filter (\<lambda>g. strip g \<noteq> []) (genres req))\<rparr>)
              = predict srv req"
    by (rule predict_cong_row [OF _ r3]) simp
  have p4: "predict srv (req\<lparr>genres := ['''', ''  '']\<rparr>) = predict srv (req\<lparr>genres := []\<rparr>)"
    by (rule predict_cong_row [OF _ r4]) simp
  have g1: "row_genres (make_row req)
              = str_join ''|'' (map strip (filter (\<lambda>g. strip g \<noteq> []) (genres req)))"
    by (simp add: make_row_def)
  have f: "row_duration (make_row req) = duration req" "row_budget (make_row req) = budget req"
    "row_title_year (make_row req) = title_year req"
    "row_content_rating (make_row req) = content_rating req"
    by (simp_all add: make_row_def)
  have s: "\<forall>e. \<exists>a b. e = a @ strip e @ b \<and> list_all isspace a \<and> list_all isspace b
               \<and> (strip e = [] \<or> (\<not> isspace (hd (strip e)) \<and> \<not> isspace (last (strip e))))"
    using strip_shape by blast
  have t: "row_tags (row_genres (make_row req)) = concat (map row_tags (genres req))"
    by (rule row_tags_make_row)
  have z: "row_genres (make_row (req\<lparr>genres := ['''', ''  '']\<rparr>)) = []"
    by (simp add: make_row_def strip_all_space [OF e(1)] strip_all_space [OF e(2)])
  from r1 r2 r3 p1 p2 p3 p4 g1 f s t z show ?thesis
    by (intro conjI)
qed

theorem predict_genres_normalised_witness:
  "list_all isspace ''  '' \<and> list_all isspace '' '' \<and> list_all isspace []
   \<and> make_row \<lparr>duration = 120, budget = 50000000, title_year = 2015,
                 genres = [''Action'', ''  '', ''Drama''], content_rating = ''PG-13''\<rparr>
     = make_row \<lparr>duration = 120, budget = 50000000, title_year = 2015,
                 genres = [''Action'', ''Drama''], content_rating = ''PG-13''\<rparr>
   \<and> make_row \<lparr>duration = 120, budget = 50000000, title_year = 2015,
                 genres = ['' Action'', ''  '', ''Drama ''], content_rating = ''PG-13''\<rparr>
     = \<lparr>row_duration = 120, row_budget = 50000000, row_title_year = 2015,
        row_content_rating = ''PG-13'', row_genres = ''Action|Drama''\<rparr>"
proof -
  have h: "list_all isspace ''  ''" "list_all isspace '' ''" "list_all isspace []"
    by (simp_all add: isspace_def)
  have "make_row (\<lparr>duration = 120, budget = 50000000, title_year = 2015,
             genres = [], content_rating = ''PG-13''\<rparr>\<lparr>genres := [''Action''] @ [''  ''] @ [''Drama'']\<rparr>)
      = make_row (\<lparr>duration = 120, budget = 50000000, title_year = 2015,
             genres = [], content_rating = ''PG-13''\<rparr>\<lparr>genres := [''Action''] @ [''Drama'']\<rparr>)"
    using predict_genres_normalised [OF h] by (rule conjunct1)
  then have a: "make_row \<lparr>duration = 120, budget = 50000000, title_year = 2015,
                 genres = [''Action'', ''  '', ''Drama''], content_rating = ''PG-13''\<rparr>
     = make_row \<lparr>duration = 120, budget = 50000000, title_year = 2015,
                 genres = [''Action'', ''Drama''], content_rating = ''PG-13''\<rparr>"
    by simp
  have s: "strip '' Action'' = ''Action''" "strip ''  '' = []" "strip ''Drama '' = ''Drama''"
    by (simp_all add: strip_def isspace_def)
  have b: "make_row \<lparr>duration = 120, budget = 50000000, title_year = 2015,
                 genres = ['' Action'', ''  '', ''Drama ''], content_rating = ''PG-13''\<rparr>
     = \<lparr>row_duration = 120, row_budget = 50000000, row_title_year = 2015,
        row_content_rating = ''PG-13'', row_genres = ''Action|Drama''\<rparr>"
    by (simp add: make_row_def s)
  from h a b show ?thesis by blast
qed




section \<open>Properties of the label binning\<close>

subsection \<open>Fixed edges: the search over the interior edges\<close>

lemma searchsorted_right_le: "searchsorted_right bins x \<le> length bins"
  by (simp add: searchsorted_right_def length_takeWhile_le)

lemma digitize_sorted:
  "sorted bins \<Longrightarrow> digitize y bins = Inr (map (searchsorted_right bins) y)"
  by (simp add: digitize_def monotonicity_def)

lemma sorted_interior: "sorted es \<Longrightarrow> sorted (butlast (tl es))"
  by (simp add: sorted_butlast sorted_tl)

lemma length_interior: "length (butlast (tl es)) = length es - 2"
  by simp

lemma nth_interior: "j < length es - 2 \<Longrightarrow> butlast (tl es) ! j = es ! Suc j"
  by (simp add: nth_butlast nth_tl)

lemma searchsorted_right_below:
  assumes "sorted bins" and "\<forall>b \<in> set bins. x < b"
  shows "searchsorted_right bins x = 0"
  using assms(2) by (cases bins) (auto simp: searchsorted_right_def)

lemma searchsorted_right_above:
  assumes "\<forall>b \<in> set bins. b \<le> x"
  shows "searchsorted_right bins x = length bins"
  using assms by (simp add: searchsorted_right_def takeWhile_eq_all_conv [THEN iffD2])

lemma searchsorted_right_at:
  "sorted_wrt (<) xs \<Longrightarrow> j < length xs \<Longrightarrow> searchsorted_right xs (xs ! j) = Suc j"
proof (induction xs arbitrary: j)
  case Nil
  then show ?case by simp
next
  case (Cons x xs)
  show ?case
  proof (cases j)
    case 0
    have "takeWhile (\<lambda>b. b \<le> x) xs = []"
      using Cons.prems(1) by (cases xs) auto
    with 0 show ?thesis by (simp add: searchsorted_right_def)
  next
    case (Suc k)
    then have k: "k < length xs" using Cons.prems(2) by simp
    then have "x < xs ! k" using Cons.prems(1) by simp
    moreover have "searchsorted_right xs (xs ! k) = Suc k"
      using Cons.IH [of k] Cons.prems(1) k by simp
    ultimately show ?thesis using Suc by (simp add: searchsorted_right_def)
  qed
qed

lemma make_bins_fixed_edge_value:
  assumes "length es = n + 1" and "sorted_wrt (<) es" and "0 < i" and "i < n" and "k < length y"
    and "y ! k = es ! i"
  shows "\<exists>cls labels. make_bins y ''fixed'' n (Some es) = Inr (cls, es, labels) \<and> cls ! k = int i"
proof -
  let ?bins = "butlast (tl es)"
  have s: "sorted es" using assms(2) by (simp add: strict_sorted_iff)
  have sb: "sorted ?bins" using s by (rule sorted_interior)
  have "?bins = take (length (tl es) - 1) (drop 1 es)"
    by (simp add: butlast_conv_take drop_Suc)
  then have ssb: "sorted_wrt (<) ?bins"
    using assms(2) by (simp add: sorted_wrt_take sorted_wrt_drop)
  have ne: "es \<noteq> []" using assms(1) by auto
  have "?bins ! (i - 1) = es ! i" using assms(1,3,4) by (simp add: nth_butlast nth_tl)
  moreover have "searchsorted_right ?bins (?bins ! (i - 1)) = Suc (i - 1)"
    using ssb assms(1,3,4) by (intro searchsorted_right_at) simp_all
  ultimately have "searchsorted_right ?bins (es ! i) = i" using assms(3) by simp
  then show ?thesis
    using assms(1,5,6) ne by (simp add: make_bins_def digitize_sorted [OF sb])
qed

subsection \<open>Quantile edges: interpolation is strictly increasing on distinct values\<close>

























subsection \<open>Two runs, evaluated\<close>

lemma digit_chars:
  "digit_char 0 = CHR ''0''" "digit_char 1 = CHR ''1''" "digit_char 2 = CHR ''2''"
  "digit_char 3 = CHR ''3''" "digit_char 4 = CHR ''4''" "digit_char 5 = CHR ''5''"
  "digit_char 6 = CHR ''6''" "digit_char 7 = CHR ''7''" "digit_char 8 = CHR ''8''"
  "digit_char 9 = CHR ''9''" "digit_char (Suc 0) = CHR ''1''"
  by code_simp+

lemma show_nat_digit: "n < 10 \<Longrightarrow> show_nat n = [digit_char n]"
  by simp

lemma fmt_examples:
  "fmt_1f 0 = ''0.0''" "fmt_1f 1 = ''1.0''" "fmt_1f 2 = ''2.0''" "fmt_1f 3 = ''3.0''"
  "fmt_1f 4 = ''4.0''" "fmt_1f 5 = ''5.0''"
  by (simp_all add: fmt_1f_def round_half_even_def digit_chars Let_def del: show_nat.simps add: show_nat_digit)

lemma c0: "qcut_code [0, 1, 2, 3, 4, 5] 1 = 0" "qcut_code [0, 1, 2, 3, 4, 5] 0 = 0"
  "qcut_code [0, 1, 2, 3, 4, 5] 2 = 1" "qcut_code [0, 1, 2, 3, 4, 5] 3 = 2"
   "qcut_code [0, 1, 2, 3, 4, 5] 4 = 3" "qcut_code [0, 1, 2, 3, 4, 5] 5 = 4"
  by (simp_all add: qcut_code_def searchsorted_left_def Let_def)

lemma quantile_examples:
  "quantile_linear [0, 1, 2, 3, 4, 5] 0 = 0" "quantile_linear [0, 1, 2, 3, 4, 5] (1 / 5) = 1"
  "quantile_linear [0, 1, 2, 3, 4, 5] (2 / 5) = 2" "quantile_linear [0, 1, 2, 3, 4, 5] (3 / 5) = 3"
  "quantile_linear [0, 1, 2, 3, 4, 5] (4 / 5) = 4" "quantile_linear [0, 1, 2, 3, 4, 5] 1 = 5"
  by (simp_all add: quantile_linear_def Let_def)

lemma qcut_example:
  "qcut [0, 1, 2, 3, 4, 5] 5 = Inr ([0, 0, 1, 2, 3, 4], [0, 1, 2, 3, 4, 5])"
proof -
  have s: "sort [0, 1, 2, 3, 4, 5 :: real] = [0, 1, 2, 3, 4, 5]"
    by simp
  have l: "linspace01 5 = [0, 1 / 5, 2 / 5, 3 / 5, 4 / 5, 1]"
    by (simp add: linspace01_def upt_rec)
  show ?thesis
    by (simp add: qcut_def s l quantile_examples unique_first_def c0 Let_def)
qed

lemma upt_5: "[0..<5] = [0, 1, 2, 3, 4]"
  by code_simp

lemma labels_example:
  "make_labels [0, 1, 2, 3, 4, 5] 5
     = [''[0.0, 1.0)'', ''[1.0, 2.0)'', ''[2.0, 3.0)'', ''[3.0, 4.0)'', ''[4.0, 5.0]'']"
  by (simp add: make_labels_def upt_rec fmt_examples)

lemma fmt_examples_fixed:
  "fmt_1f (13 / 2) = ''6.5''" "fmt_1f (15 / 2) = ''7.5''" "fmt_1f (17 / 2) = ''8.5''"
  "fmt_1f 10 = ''10.0''"
  by (simp_all add: fmt_1f_def round_half_even_def digit_chars Let_def)

lemma labels_example_fixed:
  "make_labels [0, 5, 13 / 2, 15 / 2, 17 / 2, 10] 5
     = [''[0.0, 5.0)'', ''[5.0, 6.5)'', ''[6.5, 7.5)'', ''[7.5, 8.5)'', ''[8.5, 10.0]'']"
  by (simp add: make_labels_def upt_rec fmt_examples fmt_examples_fixed)

lemma digitize_example_fixed:
  "digitize [13 / 2, 3, 11, - 2, 10] [5, 13 / 2, 15 / 2, 17 / 2] = Inr [2, 0, 4, 0, 4]"
  by (simp add: digitize_def monotonicity_def searchsorted_right_def)

lemma make_bins_fixed_example:
  "make_bins [13 / 2, 3, 11, - 2, 10] ''fixed'' 5 (Some [0, 5, 13 / 2, 15 / 2, 17 / 2, 10])
     = Inr ([2, 0, 4, 0, 4], [0, 5, 13 / 2, 15 / 2, 17 / 2, 10],
            [''[0.0, 5.0)'', ''[5.0, 6.5)'', ''[6.5, 7.5)'', ''[7.5, 8.5)'', ''[8.5, 10.0]''])"
  by (simp add: make_bins_def digitize_example_fixed labels_example_fixed)

subsection \<open>The claims about the label binning\<close>

text \<open>
  C4.  In fixed mode with \<open>n \<ge> 1\<close> classes and \<open>n + 1\<close> non-decreasing edges, \<^verbatim>\<open>make_bins\<close>
  returns for every list of values: one class per value, each in \<open>[0, n - 1]\<close>; a value
  below the first edge gets class 0 and a value at or above the last edge gets class
  \<open>n - 1\<close>.  No value makes it raise.
\<close>

theorem make_bins_fixed_in_range:
  assumes "length es = n + 1" and "0 < n" and "sorted es"
  shows "\<exists>cls. make_bins y ''fixed'' n (Some es) = Inr (cls, es, make_labels es n)
           \<and> length cls = length y
           \<and> (\<forall>k<length y.
                 0 \<le> cls ! k \<and> cls ! k \<le> int n - 1
               \<and> (y ! k < es ! 0 \<longrightarrow> cls ! k = 0)
               \<and> (es ! n \<le> y ! k \<longrightarrow> cls ! k = int n - 1))"
proof -
  let ?bins = "butlast (tl es)"
  let ?cls = "map int (map (searchsorted_right ?bins) y)"
  have sb: "sorted ?bins" using assms(3) by (rule sorted_interior)
  have lb: "length ?bins = n - 1" using assms(1) by simp
  have ne: "es \<noteq> []" using assms(1) by auto
  have mb: "make_bins y ''fixed'' n (Some es) = Inr (?cls, es, make_labels es n)"
    using assms(1) ne by (simp add: make_bins_def digitize_sorted [OF sb])
  have mem: "\<exists>j. 0 < j \<and> j < n \<and> b = es ! j" if "b \<in> set ?bins" for b
  proof -
    from that obtain j where j: "j < length ?bins" "b = ?bins ! j"
      by (auto simp: in_set_conv_nth)
    then have "b = es ! Suc j" using assms(1) by (simp add: nth_butlast nth_tl)
    with j lb show ?thesis by (intro exI [of _ "Suc j"]) auto
  qed
  have low: "searchsorted_right ?bins x = 0" if "x < es ! 0" for x
  proof (rule searchsorted_right_below [OF sb], rule ballI)
    fix b assume "b \<in> set ?bins"
    then obtain j where j: "0 < j" "j < n" "b = es ! j" using mem by blast
    have "es ! 0 \<le> es ! j" using assms(1,3) j by (simp add: sorted_nth_mono)
    with that j show "x < b" by simp
  qed
  have high: "searchsorted_right ?bins x = n - 1" if "es ! n \<le> x" for x
  proof -
    have "\<forall>b \<in> set ?bins. b \<le> x"
    proof
      fix b assume "b \<in> set ?bins"
      then obtain j where j: "0 < j" "j < n" "b = es ! j" using mem by blast
      have "es ! j \<le> es ! n" using assms(1,3) j by (simp add: sorted_nth_mono)
      with that j show "b \<le> x" by simp
    qed
    then show ?thesis using lb by (simp add: searchsorted_right_above)
  qed
  have "\<forall>k<length y.
          0 \<le> ?cls ! k \<and> ?cls ! k \<le> int n - 1
        \<and> (y ! k < es ! 0 \<longrightarrow> ?cls ! k = 0)
        \<and> (es ! n \<le> y ! k \<longrightarrow> ?cls ! k = int n - 1)"
  proof (intro allI impI)
    fix k assume k: "k < length y"
    have "searchsorted_right ?bins (y ! k) \<le> n - 1"
      using searchsorted_right_le [of ?bins "y ! k"] lb by simp
    then have "?cls ! k \<le> int n - 1" using k assms(2) by simp
    moreover have "0 \<le> ?cls ! k" using k by simp
    moreover have "y ! k < es ! 0 \<longrightarrow> ?cls ! k = 0" using k low by simp
    moreover have "es ! n \<le> y ! k \<longrightarrow> ?cls ! k = int n - 1"
      using k high assms(2) by (simp add: of_nat_diff)
    ultimately show "0 \<le> ?cls ! k \<and> ?cls ! k \<le> int n - 1
        \<and> (y ! k < es ! 0 \<longrightarrow> ?cls ! k = 0)
        \<and> (es ! n \<le> y ! k \<longrightarrow> ?cls ! k = int n - 1)" by blast
  qed
  with mb show ?thesis by (intro exI [of _ ?cls]) simp
qed

theorem make_bins_fixed_in_range_witness:
  "length [0, 5, 13 / 2, 15 / 2, 17 / 2, 10 :: real] = 5 + 1 \<and> (0 :: nat) < 5
   \<and> sorted [0, 5, 13 / 2, 15 / 2, 17 / 2, 10 :: real]
   \<and> make_bins [13 / 2, 3, 11, - 2, 10] ''fixed'' 5 (Some [0, 5, 13 / 2, 15 / 2, 17 / 2, 10])
       = Inr ([2, 0, 4, 0, 4], [0, 5, 13 / 2, 15 / 2, 17 / 2, 10],
              make_labels [0, 5, 13 / 2, 15 / 2, 17 / 2, 10] 5)"
proof -
  have h: "length [0, 5, 13 / 2, 15 / 2, 17 / 2, 10 :: real] = 5 + 1" "(0 :: nat) < 5"
    "sorted [0, 5, 13 / 2, 15 / 2, 17 / 2, 10 :: real]"
    by simp_all
  obtain cls where
    "make_bins [13 / 2, 3, 11, - 2, 10] ''fixed'' 5 (Some [0, 5, 13 / 2, 15 / 2, 17 / 2, 10])
       = Inr (cls, [0, 5, 13 / 2, 15 / 2, 17 / 2, 10],
              make_labels [0, 5, 13 / 2, 15 / 2, 17 / 2, 10] 5)"
    using make_bins_fixed_in_range [OF h, of "[13 / 2, 3, 11, - 2, 10]"] by blast
  moreover have "cls = [2, 0, 4, 0, 4]"
    using calculation by (simp add: make_bins_fixed_example)
  ultimately show ?thesis
    using h by simp
qed

text \<open>
  C2.  The quantile path on the values 0, 1, 2, 3, 4, 5 with five classes: the edges are
  0, 1, 2, 3, 4, 5, and the value 1, which equals the interior edge of index 1, gets
  code 0, the class labelled \<^verbatim>\<open>[0.0, 1.0)\<close>; likewise 2, 3 and 4 get the class below their
  index.  The intervals of \<^verbatim>\<open>pd.qcut\<close> are closed on the right, against the labels and
  against the fixed path, where the same value gets the class of its index
  (\<open>make_bins_fixed_edge_value\<close>).
\<close>

theorem make_bins_quantile_edge_code: "make_bins [0, 1, 2, 3, 4, 5] ''quantile'' 5 None
   = Inr ([0, 0, 1, 2, 3, 4], [0, 1, 2, 3, 4, 5],
          [''[0.0, 1.0)'', ''[1.0, 2.0)'', ''[2.0, 3.0)'', ''[3.0, 4.0)'', ''[4.0, 5.0]''])"
proof -
  have n: "length [0, 1, 2, 3, 4, 5 :: real] - 1 = 5"
    by simp
  have "make_bins [0, 1, 2, 3, 4, 5] ''quantile'' 5 None
          = Inr ([0, 0, 1, 2, 3, 4], [0, 1, 2, 3, 4, 5],
                 make_labels [0, 1, 2, 3, 4, 5] (length [0, 1, 2, 3, 4, 5 :: real] - 1))"
    by (simp add: make_bins_def qcut_example)
  then show ?thesis
    by (simp only: n labels_example)
qed



end
